theory Spec2Isabelle
  imports
    Complex_Main
    "HOL-Library.Char_ord"
    "HOL-Library.List_Lexorder"
    "HOL-Library.AList"
begin

section \<open>Data model (lib/types.ts)\<close>

text \<open>
  The TypeScript interface \<open>Transaction\<close> becomes a record; its field names carry the
  prefix \<open>tx_\<close>. An optional property (\<open>toAccountId?\<close>, \<open>note?\<close>) is an \<open>option\<close>.
  The amount is a JavaScript \<open>number\<close>: the functions modelled here store it and hand it
  on and never compute with it, so it is carried as a \<open>real\<close>.

  \<open>updatedAt\<close> is declared \<open>string\<close>, but the values reach the merge unchecked, from
  \<open>JSON.parse\<close> of the stored document and from a cast of the remote rows; \<open>None\<close> is a
  record whose property is absent (\<open>undefined\<close> at run time).
\<close>

datatype TransactionType = Expense | Income | Transfer

record Transaction =
  tx_id :: string
  tx_type :: TransactionType
  tx_amount :: real
  tx_categoryId :: string
  tx_accountId :: string
  tx_toAccountId :: "string option"
  tx_date :: string
  tx_note :: "string option"
  tx_createdAt :: string
  tx_updatedAt :: "string option"

section \<open>Merge engine (lib/supabase-sync.ts)\<close>

text \<open>
  \<open>a >= b\<close> of JavaScript on two values that are a string or \<open>undefined\<close>. Two strings
  are compared lexicographically by code unit, which is the order of \<open>HOL-Library.List_Lexorder\<close>
  over \<open>HOL-Library.Char_ord\<close>. When an operand is \<open>undefined\<close> both are converted to
  numbers, \<open>undefined\<close> becomes \<open>NaN\<close>, and every comparison with \<open>NaN\<close> is false.
\<close>

fun js_ge :: "string option \<Rightarrow> string option \<Rightarrow> bool" where
  "js_ge (Some a) (Some b) = (b \<le> a)"
| "js_ge _ _ = False"

text \<open>
  A JavaScript \<open>Map\<close> keeps its keys in insertion order, and \<open>set\<close> on a key that is
  present replaces the value where it stands: an association list with \<open>AList.update\<close>.
  \<open>map.get\<close> is \<open>map_of\<close>, \<open>map.values()\<close> is \<open>map snd\<close>.
\<close>

type_synonym TxMap = "(string \<times> Transaction) list"

text \<open>\<open>for (const tx of local) map.set(tx.id, tx)\<close>\<close>

definition seedLocal :: "Transaction list \<Rightarrow> TxMap" where
  "seedLocal local_txs = fold (\<lambda>tx m. AList.update (tx_id tx) tx m) local_txs []"

text \<open>The body of the loop over the remote records.\<close>

definition mergeStep :: "Transaction \<Rightarrow> TxMap \<Rightarrow> TxMap" where
  "mergeStep tx m =
     (case map_of m (tx_id tx) of
        None \<Rightarrow> AList.update (tx_id tx) tx m
      | Some existing \<Rightarrow>
          if js_ge (tx_updatedAt tx) (tx_updatedAt existing)
          then AList.update (tx_id tx) tx m
          else m)"

definition mergeMap :: "Transaction list \<Rightarrow> Transaction list \<Rightarrow> TxMap" where
  "mergeMap local_txs remote_txs = fold mergeStep remote_txs (seedLocal local_txs)"

definition mergeTransactions :: "Transaction list \<Rightarrow> Transaction list \<Rightarrow> Transaction list" where
  "mergeTransactions local_txs remote_txs = map snd (mergeMap local_txs remote_txs)"

section \<open>Local store (storage module, found in lib/SidebarContext.tsx)\<close>

text \<open>
  \<open>AsyncStorage\<close> holds one JSON document per key, or nothing (\<open>getItem\<close> gives
  \<open>null\<close>). The two keys the synchronisation core writes are modelled:
  \<open>mymoney_transactions\<close> and \<open>mymoney_pending_deletes\<close>. \<open>JSON.stringify\<close> followed by
  \<open>JSON.parse\<close> is the identity on these documents, so a key holds the typed value, and
  \<open>None\<close> is an absent key. The calls of \<open>AsyncStorage\<close> themselves are taken to succeed.
\<close>

record Store =
  st_transactions :: "Transaction list option"
  st_pending_deletes :: "string list option"

definition getTransactions :: "Store \<Rightarrow> Transaction list" where
  "getTransactions st = (case st_transactions st of None \<Rightarrow> [] | Some txs \<Rightarrow> txs)"

text \<open>\<open>findIndex\<close> of JavaScript, with \<open>None\<close> for its \<open>-1\<close>.\<close>

fun findIndex :: "('a \<Rightarrow> bool) \<Rightarrow> 'a list \<Rightarrow> nat option" where
  "findIndex p [] = None"
| "findIndex p (x # xs) = (if p x then Some 0 else map_option Suc (findIndex p xs))"

definition upsertTransaction :: "Transaction \<Rightarrow> Transaction list \<Rightarrow> Transaction list" where
  "upsertTransaction t txs =
     (case findIndex (\<lambda>x. tx_id x = tx_id t) txs of
        Some existing \<Rightarrow> txs[existing := t]
      | None \<Rightarrow> txs @ [t])"

definition saveTransaction :: "Transaction \<Rightarrow> Store \<Rightarrow> Store" where
  "saveTransaction t st =
     st\<lparr>st_transactions := Some (upsertTransaction t (getTransactions st))\<rparr>"

definition deleteTransaction :: "string \<Rightarrow> Store \<Rightarrow> Store" where
  "deleteTransaction i st =
     st\<lparr>st_transactions := Some (filter (\<lambda>t. tx_id t \<noteq> i) (getTransactions st))\<rparr>"

definition setTransactions :: "Transaction list \<Rightarrow> Store \<Rightarrow> Store" where
  "setTransactions txs st = st\<lparr>st_transactions := Some txs\<rparr>"

subsection \<open>Pending-delete queue\<close>

definition getPendingDeletes :: "Store \<Rightarrow> string list" where
  "getPendingDeletes st = (case st_pending_deletes st of None \<Rightarrow> [] | Some ids \<Rightarrow> ids)"

definition addPendingDelete :: "string \<Rightarrow> Store \<Rightarrow> Store" where
  "addPendingDelete i st =
     (let ids = getPendingDeletes st in
      if i \<notin> set ids then st\<lparr>st_pending_deletes := Some (ids @ [i])\<rparr> else st)"

definition clearPendingDeletes :: "Store \<Rightarrow> Store" where
  "clearPendingDeletes st = st\<lparr>st_pending_deletes := None\<rparr>"

text \<open>The three operations of the queue, to run sequences of them.\<close>

datatype QueueOp = GetPendingDeletes | AddPendingDelete string | ClearPendingDeletes

fun applyQueueOp :: "QueueOp \<Rightarrow> Store \<Rightarrow> Store" where
  "applyQueueOp GetPendingDeletes st = st"
| "applyQueueOp (AddPendingDelete i) st = addPendingDelete i st"
| "applyQueueOp ClearPendingDeletes st = clearPendingDeletes st"

section \<open>Remote transport and provider state\<close>

text \<open>
  The remote service is the environment. A request through the Supabase client resolves to
  a pair \<open>{data, error}\<close> (the client is created without \<open>throwOnError\<close>): \<open>Sb_data\<close> when
  \<open>error\<close> is null, \<open>Sb_error\<close> with the message otherwise. The argument of type
  \<open>reply option\<close> of a transport function is what \<open>getSupabase()\<close> and the request give
  in that call: \<open>None\<close> when \<open>getSupabase()\<close> returns \<open>null\<close>.

  An \<open>async\<close> function returns its state and how its promise settles. The model keeps a log
  of the transport functions invoked and of the lines written by \<open>console.warn\<close>. The rows
  sent (\<open>toRow\<close>) and received (\<open>fromRow\<close>) are not modelled: a call is logged with the
  transactions and the owner it was given, and a fetch replies with transactions.
\<close>

datatype 'a reply = Sb_data 'a | Sb_error string

datatype 'a outcome = Fulfilled 'a | Rejected

datatype TransportCall =
    Call_pushTransaction Transaction string
  | Call_pushTransactionsBatch "Transaction list" string
  | Call_deleteRemoteTransaction string
  | Call_deleteRemoteTransactionsBatch "string list"
  | Call_fetchRemoteTransactions string

subsection \<open>In-memory state and its reducer (src/unnamed/part_016)\<close>

text \<open>
  The transactions of the reducer's state, and the three actions that the sync pass and the
  transaction entry points dispatch. Accounts, categories and the loading flag, and the
  actions on them, are left out.
\<close>

record AppState =
  transactions :: "Transaction list"

datatype AppAction =
    SET_TRANSACTIONS "Transaction list"
  | UPSERT_TRANSACTION Transaction
  | DELETE_TRANSACTION string

fun reducer :: "AppState \<Rightarrow> AppAction \<Rightarrow> AppState" where
  "reducer state (SET_TRANSACTIONS txs) = state\<lparr>transactions := txs\<rparr>"
| "reducer state (UPSERT_TRANSACTION t) =
     (case findIndex (\<lambda>x. tx_id x = tx_id t) (transactions state) of
        Some idx \<Rightarrow> state\<lparr>transactions := (transactions state)[idx := t]\<rparr>
      | None \<Rightarrow> state\<lparr>transactions := transactions state @ [t]\<rparr>)"
| "reducer state (DELETE_TRANSACTION i) =
     state\<lparr>transactions := filter (\<lambda>t. tx_id t \<noteq> i) (transactions state)\<rparr>"

text \<open>
  The provider: the local store, the reducer's state, the three refs, and the two logs.
\<close>

record App =
  app_store :: Store
  app_state :: AppState
  sbUserIdRef :: "string option"
  lastSyncAtRef :: nat
  isSyncingRef :: bool
  transport_calls :: "TransportCall list"
  console_warn :: "string list"

definition dispatch :: "AppAction \<Rightarrow> App \<Rightarrow> App" where
  "dispatch action s = s\<lparr>app_state := reducer (app_state s) action\<rparr>"

definition invoke :: "TransportCall \<Rightarrow> App \<Rightarrow> App" where
  "invoke c s = s\<lparr>transport_calls := transport_calls s @ [c]\<rparr>"

definition warn :: "string \<Rightarrow> App \<Rightarrow> App" where
  "warn msg s = s\<lparr>console_warn := console_warn s @ [msg]\<rparr>"

subsection \<open>Transport functions (lib/supabase-sync.ts)\<close>

definition fetchRemoteTransactions ::
  "Transaction list reply option \<Rightarrow> string \<Rightarrow> App \<Rightarrow> App \<times> Transaction list outcome" where
  "fetchRemoteTransactions sb supabaseUserId s =
     (let s1 = invoke (Call_fetchRemoteTransactions supabaseUserId) s in
      case sb of
        None \<Rightarrow> (s1, Fulfilled [])
      | Some (Sb_error msg) \<Rightarrow> (warn (''[supabase] fetchTransactions: '' @ msg) s1, Fulfilled [])
      | Some (Sb_data rows) \<Rightarrow> (s1, Fulfilled rows))"

definition pushTransaction ::
  "unit reply option \<Rightarrow> Transaction \<Rightarrow> string \<Rightarrow> App \<Rightarrow> App \<times> unit outcome" where
  "pushTransaction sb tx supabaseUserId s =
     (let s1 = invoke (Call_pushTransaction tx supabaseUserId) s in
      case sb of
        None \<Rightarrow> (s1, Fulfilled ())
      | Some (Sb_error msg) \<Rightarrow> (warn (''[supabase] pushTransaction: '' @ msg) s1, Fulfilled ())
      | Some (Sb_data _) \<Rightarrow> (s1, Fulfilled ()))"

definition pushTransactionsBatch ::
  "unit reply option \<Rightarrow> Transaction list \<Rightarrow> string \<Rightarrow> App \<Rightarrow> App \<times> unit outcome" where
  "pushTransactionsBatch sb txs supabaseUserId s =
     (let s1 = invoke (Call_pushTransactionsBatch txs supabaseUserId) s in
      if sb = None \<or> length txs = 0 then (s1, Fulfilled ())
      else case sb of
        Some (Sb_error msg) \<Rightarrow> (warn (''[supabase] pushTransactionsBatch: '' @ msg) s1, Fulfilled ())
      | _ \<Rightarrow> (s1, Fulfilled ()))"

definition deleteRemoteTransaction ::
  "unit reply option \<Rightarrow> string \<Rightarrow> App \<Rightarrow> App \<times> unit outcome" where
  "deleteRemoteTransaction sb i s =
     (let s1 = invoke (Call_deleteRemoteTransaction i) s in
      case sb of
        None \<Rightarrow> (s1, Fulfilled ())
      | Some (Sb_error msg) \<Rightarrow> (warn (''[supabase] deleteTransaction: '' @ msg) s1, Fulfilled ())
      | Some (Sb_data _) \<Rightarrow> (s1, Fulfilled ()))"

text \<open>
  Modelled from the spec: \<open>deleteRemoteTransactionsBatch\<close> is imported by the orchestrator
  from the transport module, but its definition is not in the sources. The specification
  gives it as "delete by ids", a call that may fail; the orchestrator's comment says that it
  throws on a network error. How its promise settles is the parameter \<open>settles\<close>.
\<close>

definition deleteRemoteTransactionsBatch ::
  "unit outcome \<Rightarrow> string list \<Rightarrow> App \<Rightarrow> App \<times> unit outcome" where
  "deleteRemoteTransactionsBatch settles ids s =
     (invoke (Call_deleteRemoteTransactionsBatch ids) s, settles)"

section \<open>Sync orchestrator (src/unnamed/part_016)\<close>

text \<open>
  What the environment does during one pass: the replies to the batch push and to the
  fetch, how the batch delete settles, and the clock read at the end.
\<close>

record SyncEnv =
  env_push :: "unit reply option"
  env_deleteBatch :: "unit outcome"
  env_fetch :: "Transaction list reply option"
  env_now :: nat

text \<open>Step 2 of the pass: flush the pending deletes. A rejected \<open>await\<close> throws.\<close>

definition flushDeletes :: "unit outcome \<Rightarrow> App \<Rightarrow> App \<times> unit outcome" where
  "flushDeletes settles s =
     (let pendingDeletes = getPendingDeletes (app_store s) in
      if length pendingDeletes > 0 then
        (case deleteRemoteTransactionsBatch settles pendingDeletes s of
           (s1, Rejected) \<Rightarrow> (s1, Rejected)
         | (s1, Fulfilled _) \<Rightarrow>
             (s1\<lparr>app_store := clearPendingDeletes (app_store s1)\<rparr>, Fulfilled ()))
      else (s, Fulfilled ()))"

text \<open>Step 3 of the pass: fetch, merge with the local list read at the start, persist.\<close>

definition pullMergePersist ::
  "Transaction list reply option \<Rightarrow> nat \<Rightarrow> Transaction list \<Rightarrow> string \<Rightarrow> App
     \<Rightarrow> App \<times> unit outcome" where
  "pullMergePersist sb now localTx sbUserId s =
     (case fetchRemoteTransactions sb sbUserId s of
        (s1, Rejected) \<Rightarrow> (s1, Rejected)
      | (s1, Fulfilled remoteTx) \<Rightarrow>
          (let merged = mergeTransactions localTx remoteTx;
               s2 = s1\<lparr>app_store := setTransactions merged (app_store s1)\<rparr>;
               s3 = dispatch (SET_TRANSACTIONS merged) s2
           in (s3\<lparr>lastSyncAtRef := now\<rparr>, Fulfilled ())))"

text \<open>The \<open>try\<close> block of \<open>performSync\<close>.\<close>

definition syncBody :: "SyncEnv \<Rightarrow> string \<Rightarrow> App \<Rightarrow> App \<times> unit outcome" where
  "syncBody env sbUserId s =
     (let localTx = getTransactions (app_store s) in
      case pushTransactionsBatch (env_push env) localTx sbUserId s of
        (s1, Rejected) \<Rightarrow> (s1, Rejected)
      | (s1, Fulfilled _) \<Rightarrow>
          (case flushDeletes (env_deleteBatch env) s1 of
             (s2, Rejected) \<Rightarrow> (s2, Rejected)
           | (s2, Fulfilled _) \<Rightarrow>
               pullMergePersist (env_fetch env) (env_now env) localTx sbUserId s2))"

text \<open>The guard on \<open>isSyncingRef\<close>, the \<open>try\<close> block, and the \<open>finally\<close> that resets the ref.\<close>

definition performSync :: "SyncEnv \<Rightarrow> string \<Rightarrow> App \<Rightarrow> App \<times> unit outcome" where
  "performSync env sbUserId s =
     (if isSyncingRef s then (s, Fulfilled ())
      else case syncBody env sbUserId (s\<lparr>isSyncingRef := True\<rparr>) of
             (s1, r) \<Rightarrow> (s1\<lparr>isSyncingRef := False\<rparr>, r))"

subsection \<open>Mutation entry points\<close>

text \<open>
  \<open>if (sbId)\<close> on a value that is a string or \<open>null\<close>: \<open>null\<close> and the empty string are
  falsy. \<open>ownerOf\<close> gives the owner id when the test passes.
\<close>

fun ownerOf :: "string option \<Rightarrow> string option" where
  "ownerOf None = None"
| "ownerOf (Some sbId) = (if sbId = [] then None else Some sbId)"

text \<open>
  The part of an entry point that its caller awaits, and the propagation that is fired
  without \<open>await\<close>. The model runs the propagation to its end right after the awaited part:
  no other operation is interleaved.
\<close>

definition saveLocal :: "Transaction \<Rightarrow> App \<Rightarrow> App" where
  "saveLocal tx s =
     dispatch (UPSERT_TRANSACTION tx) (s\<lparr>app_store := saveTransaction tx (app_store s)\<rparr>)"

definition propagatePush :: "string \<Rightarrow> unit reply option \<Rightarrow> Transaction \<Rightarrow> string \<Rightarrow> App \<Rightarrow> App" where
  "propagatePush label sb tx sbId s =
     (case pushTransaction sb tx sbId s of
        (s1, Fulfilled _) \<Rightarrow> s1
      | (s1, Rejected) \<Rightarrow> warn label s1)"

definition addTransaction :: "unit reply option \<Rightarrow> Transaction \<Rightarrow> App \<Rightarrow> App" where
  "addTransaction sb tx s =
     (let s1 = saveLocal tx s in
      case ownerOf (sbUserIdRef s1) of
        None \<Rightarrow> s1
      | Some sbId \<Rightarrow> propagatePush ''[AppContext] add->supabase error:'' sb tx sbId s1)"

definition updateTransaction :: "unit reply option \<Rightarrow> Transaction \<Rightarrow> App \<Rightarrow> App" where
  "updateTransaction sb tx s =
     (let s1 = saveLocal tx s in
      case ownerOf (sbUserIdRef s1) of
        None \<Rightarrow> s1
      | Some sbId \<Rightarrow> propagatePush ''[AppContext] update->supabase error:'' sb tx sbId s1)"

text \<open>\<open>await deleteTransaction(id); dispatch(...)\<close>\<close>

definition removeLocal :: "string \<Rightarrow> App \<Rightarrow> App" where
  "removeLocal i s =
     dispatch (DELETE_TRANSACTION i) (s\<lparr>app_store := deleteTransaction i (app_store s)\<rparr>)"

text \<open>\<open>await addPendingDelete(id)\<close>\<close>

definition enqueueDelete :: "string \<Rightarrow> App \<Rightarrow> App" where
  "enqueueDelete i s = s\<lparr>app_store := addPendingDelete i (app_store s)\<rparr>"

text \<open>
  The handler of \<open>then\<close>: read the queue, drop the id, clear the key, add the others again.
\<close>

definition requeueOthers :: "string \<Rightarrow> Store \<Rightarrow> Store" where
  "requeueOthers i st =
     (let ids = getPendingDeletes st;
          remaining = filter (\<lambda>j. j \<noteq> i) ids
      in fold addPendingDelete remaining (clearPendingDeletes st))"

text \<open>\<open>deleteRemoteTransaction(id).then(...).catch(...)\<close>\<close>

definition liveDelete :: "unit reply option \<Rightarrow> string \<Rightarrow> App \<Rightarrow> App" where
  "liveDelete sb i s =
     (case deleteRemoteTransaction sb i s of
        (s1, Fulfilled _) \<Rightarrow> s1\<lparr>app_store := requeueOthers i (app_store s1)\<rparr>
      | (s1, Rejected) \<Rightarrow> warn ''[AppContext] delete->supabase (queued for retry):'' s1)"

definition removeTransaction :: "unit reply option \<Rightarrow> string \<Rightarrow> App \<Rightarrow> App" where
  "removeTransaction sb i s =
     (let s1 = removeLocal i s in
      case ownerOf (sbUserIdRef s1) of
        None \<Rightarrow> s1
      | Some sbId \<Rightarrow> liveDelete sb i (enqueueDelete i s1))"

text \<open>A call of an entry point, with the reply the remote service would give to it.\<close>

datatype Mutation =
    AddTransaction "unit reply option" Transaction
  | UpdateTransaction "unit reply option" Transaction
  | RemoveTransaction "unit reply option" string

fun applyMutation :: "Mutation \<Rightarrow> App \<Rightarrow> App" where
  "applyMutation (AddTransaction sb tx) s = addTransaction sb tx s"
| "applyMutation (UpdateTransaction sb tx) s = updateTransaction sb tx s"
| "applyMutation (RemoveTransaction sb i) s = removeTransaction sb i s"

section \<open>Notions used to state and prove the properties\<close>

text \<open>The records of a list that carry a given id, in the order of the list.\<close>

definition recordsOf :: "string \<Rightarrow> Transaction list \<Rightarrow> Transaction list" where
  "recordsOf k txs = filter (\<lambda>t. tx_id t = k) txs"

definition lastOf :: "'a list \<Rightarrow> 'a option" where
  "lastOf xs = (if xs = [] then None else Some (last xs))"

text \<open>Every entry of the map is stored under the id of its record.\<close>

definition keyed :: "TxMap \<Rightarrow> bool" where
  "keyed m = (\<forall>(k, v) \<in> set m. tx_id v = k)"

text \<open>
  What one remote record does to the entry of its id, and what a run of remote records
  with that id does to it.
\<close>

definition pick :: "Transaction \<Rightarrow> Transaction \<Rightarrow> Transaction" where
  "pick existing tx = (if js_ge (tx_updatedAt tx) (tx_updatedAt existing) then tx else existing)"

definition resolveStep :: "Transaction \<Rightarrow> Transaction option \<Rightarrow> Transaction option" where
  "resolveStep tx cur = (case cur of None \<Rightarrow> Some tx | Some existing \<Rightarrow> Some (pick existing tx))"

definition resolve :: "Transaction option \<Rightarrow> Transaction list \<Rightarrow> Transaction option" where
  "resolve cur txs = fold resolveStep txs cur"

text \<open>A transaction for the examples: an expense with the given id, amount and timestamp.\<close>

definition sampleTx :: "string \<Rightarrow> real \<Rightarrow> string option \<Rightarrow> Transaction" where
  "sampleTx i a u =
     \<lparr>tx_id = i, tx_type = Expense, tx_amount = a, tx_categoryId = ''cat-food'',
      tx_accountId = ''acc-cash'', tx_toAccountId = None, tx_date = ''2026-03-05'',
      tx_note = None, tx_createdAt = ''T0'', tx_updatedAt = u\<rparr>"

text \<open>
  Every pair of a record of \<open>A\<close> and a record of \<open>B\<close> with the same id carries two
  timestamps, and they differ.
\<close>

definition stampsDiffer :: "Transaction list \<Rightarrow> Transaction list \<Rightarrow> bool" where
  "stampsDiffer A B =
     (\<forall>a \<in> set A. \<forall>b \<in> set B. tx_id a = tx_id b \<longrightarrow>
        tx_updatedAt a \<noteq> None \<and> tx_updatedAt b \<noteq> None
        \<and> tx_updatedAt a \<noteq> tx_updatedAt b)"

text \<open>
  The provider for the examples: the given owner, the given transactions in the store and
  in memory, the given queue document, no sync in flight and empty logs.
\<close>

definition sampleApp :: "string option \<Rightarrow> Transaction list \<Rightarrow> string list option \<Rightarrow> App" where
  "sampleApp owner txs queue =
     \<lparr>app_store = \<lparr>st_transactions = Some txs, st_pending_deletes = queue\<rparr>,
      app_state = \<lparr>transactions = txs\<rparr>,
      sbUserIdRef = owner, lastSyncAtRef = 0, isSyncingRef = False,
      transport_calls = [], console_warn = []\<rparr>"

text \<open>
  An environment for the examples: the push and the fetch succeed, the remote holds \<open>t1\<close>,
  and the batch delete settles as given.
\<close>

definition sampleEnv :: "unit outcome \<Rightarrow> SyncEnv" where
  "sampleEnv settles =
     \<lparr>env_push = Some (Sb_data ()), env_deleteBatch = settles,
      env_fetch = Some (Sb_data [sampleTx ''t1'' 50 (Some ''T1'')]), env_now = 1000\<rparr>"

text \<open>The part of an entry point that works on the local store and the in-memory state.\<close>

fun applyLocally :: "Mutation \<Rightarrow> App \<Rightarrow> App" where
  "applyLocally (AddTransaction sb tx) s = saveLocal tx s"
| "applyLocally (UpdateTransaction sb tx) s = saveLocal tx s"
| "applyLocally (RemoveTransaction sb i) s = removeLocal i s"

section \<open>The merge engine: one entry per id\<close>

lemma map_of_mergeStep:
  "map_of (mergeStep tx m) k =
     (if k = tx_id tx
      then Some (case map_of m k of None \<Rightarrow> tx | Some existing \<Rightarrow> pick existing tx)
      else map_of m k)"
  by (auto simp: mergeStep_def pick_def update_conv' split: option.splits)

lemma distinct_mergeStep: "distinct (map fst m) \<Longrightarrow> distinct (map fst (mergeStep tx m))"
  by (simp add: mergeStep_def distinct_update split: option.splits)

lemma set_update_subset: "set (AList.update k v al) \<subseteq> insert (k, v) (set al)"
  by (induction al) auto

lemma keyed_update: "keyed m \<Longrightarrow> keyed (AList.update (tx_id tx) tx m)"
  using set_update_subset[of "tx_id tx" tx m] by (auto simp: keyed_def)

lemma keyed_mergeStep: "keyed m \<Longrightarrow> keyed (mergeStep tx m)"
  by (simp add: mergeStep_def keyed_update split: option.splits)

lemma distinct_seedFold:
  "distinct (map fst m) \<Longrightarrow>
   distinct (map fst (fold (\<lambda>tx m. AList.update (tx_id tx) tx m) txs m))"
  by (induction txs arbitrary: m) (auto simp: distinct_update)

lemma keyed_seedFold:
  "keyed m \<Longrightarrow> keyed (fold (\<lambda>tx m. AList.update (tx_id tx) tx m) txs m)"
  by (induction txs arbitrary: m) (auto simp: keyed_update)

lemma distinct_mergeFold: "distinct (map fst m) \<Longrightarrow> distinct (map fst (fold mergeStep txs m))"
  by (induction txs arbitrary: m) (auto simp: distinct_mergeStep)

lemma keyed_mergeFold: "keyed m \<Longrightarrow> keyed (fold mergeStep txs m)"
  by (induction txs arbitrary: m) (auto simp: keyed_mergeStep)

lemma keyed_ids: "keyed m \<Longrightarrow> map (tx_id \<circ> snd) m = map fst m"
  by (induction m) (auto simp: keyed_def)

lemma distinct_mergeMap: "distinct (map fst (mergeMap A B))"
  by (simp add: mergeMap_def seedLocal_def distinct_mergeFold distinct_seedFold)

lemma keyed_mergeMap: "keyed (mergeMap A B)"
proof -
  have "keyed []" by (simp add: keyed_def)
  then show ?thesis
    by (simp add: mergeMap_def seedLocal_def keyed_mergeFold keyed_seedFold)
qed

lemma merge_distinct_ids: "distinct (map tx_id (mergeTransactions A B))"
  by (simp add: mergeTransactions_def keyed_ids[OF keyed_mergeMap] distinct_mergeMap)

subsection \<open>The entry of one id\<close>

lemma lookup_seedFold:
  "map_of (fold (\<lambda>tx m. AList.update (tx_id tx) tx m) txs m) k =
     (case lastOf (recordsOf k txs) of None \<Rightarrow> map_of m k | Some a \<Rightarrow> Some a)"
  by (induction txs arbitrary: m) (auto simp: recordsOf_def lastOf_def update_conv')

lemma lookup_seedLocal: "map_of (seedLocal A) k = lastOf (recordsOf k A)"
  by (simp add: seedLocal_def lookup_seedFold split: option.splits)

lemma lookup_mergeFold:
  "map_of (fold mergeStep txs m) k = resolve (map_of m k) (recordsOf k txs)"
  by (induction txs arbitrary: m)
     (auto simp: recordsOf_def resolve_def resolveStep_def map_of_mergeStep split: option.splits)

lemma lookup_mergeMap:
  "map_of (mergeMap A B) k = resolve (lastOf (recordsOf k A)) (recordsOf k B)"
  by (simp add: mergeMap_def lookup_mergeFold lookup_seedLocal)

lemma recordsOf_values:
  "distinct (map fst m) \<Longrightarrow> keyed m \<Longrightarrow>
   recordsOf k (map snd m) = (case map_of m k of None \<Rightarrow> [] | Some v \<Rightarrow> [v])"
proof (induction m)
  case Nil
  show ?case by (simp add: recordsOf_def)
next
  case (Cons p m)
  obtain k' v where p: "p = (k', v)" by (cases p)
  from Cons.prems have d: "distinct (map fst m)" and km: "keyed m" and kv: "tx_id v = k'"
    and fresh: "k' \<notin> fst ` set m"
    by (auto simp: keyed_def p)
  have ih: "recordsOf k (map snd m) = (case map_of m k of None \<Rightarrow> [] | Some v \<Rightarrow> [v])"
    by (rule Cons.IH[OF d km])
  show ?case
  proof (cases "k = k'")
    case True
    with fresh have "map_of m k = None" by (simp add: map_of_eq_None_iff)
    with ih True kv show ?thesis by (simp add: p recordsOf_def)
  next
    case False
    with ih kv show ?thesis by (auto simp: p recordsOf_def)
  qed
qed

lemma recordsOf_merge:
  "recordsOf k (mergeTransactions A B) =
     (case resolve (lastOf (recordsOf k A)) (recordsOf k B) of None \<Rightarrow> [] | Some v \<Rightarrow> [v])"
  by (simp add: mergeTransactions_def recordsOf_values[OF distinct_mergeMap keyed_mergeMap]
        lookup_mergeMap)

lemma merge_singletons:
  "tx_id r = tx_id l \<Longrightarrow>
   mergeTransactions [l] [r] = [if js_ge (tx_updatedAt r) (tx_updatedAt l) then r else l]"
  by (simp add: mergeTransactions_def mergeMap_def seedLocal_def mergeStep_def)

subsection \<open>Ids and records of the output\<close>

lemma keys_seedFold:
  "fst ` set (fold (\<lambda>tx m. AList.update (tx_id tx) tx m) txs m) = tx_id ` set txs \<union> fst ` set m"
  by (induction txs arbitrary: m) (auto simp: dom_update)

lemma values_seedFold:
  "snd ` set (fold (\<lambda>tx m. AList.update (tx_id tx) tx m) txs m) \<subseteq> set txs \<union> snd ` set m"
proof (induction txs arbitrary: m)
  case Nil
  show ?case by simp
next
  case (Cons t ts)
  have "snd ` set (fold (\<lambda>tx m. AList.update (tx_id tx) tx m) ts (AList.update (tx_id t) t m))
          \<subseteq> set ts \<union> snd ` set (AList.update (tx_id t) t m)"
    by (rule Cons.IH)
  also have "\<dots> \<subseteq> set ts \<union> insert t (snd ` set m)"
    using set_update_subset[of "tx_id t" t m] by force
  finally show ?case by simp
qed

lemma keys_mergeStep: "fst ` set (mergeStep tx m) = insert (tx_id tx) (fst ` set m)"
proof (cases "map_of m (tx_id tx)")
  case None
  then show ?thesis by (simp add: mergeStep_def dom_update)
next
  case (Some existing)
  then have "(tx_id tx, existing) \<in> set m" by (rule map_of_SomeD)
  then have "tx_id tx \<in> fst ` set m" by force
  with Some show ?thesis by (auto simp: mergeStep_def dom_update)
qed

lemma values_mergeStep: "snd ` set (mergeStep tx m) \<subseteq> insert tx (snd ` set m)"
  using set_update_subset[of "tx_id tx" tx m] by (auto simp: mergeStep_def split: option.splits)

lemma keys_mergeFold: "fst ` set (fold mergeStep txs m) = tx_id ` set txs \<union> fst ` set m"
  by (induction txs arbitrary: m) (auto simp: keys_mergeStep)

lemma values_mergeFold: "snd ` set (fold mergeStep txs m) \<subseteq> set txs \<union> snd ` set m"
proof (induction txs arbitrary: m)
  case Nil
  show ?case by simp
next
  case (Cons t ts)
  have "snd ` set (fold mergeStep ts (mergeStep t m)) \<subseteq> set ts \<union> snd ` set (mergeStep t m)"
    by (rule Cons.IH)
  also have "\<dots> \<subseteq> set ts \<union> insert t (snd ` set m)"
    using values_mergeStep[of t m] by blast
  finally show ?case by simp
qed

lemma merge_ids: "tx_id ` set (mergeTransactions A B) = tx_id ` set A \<union> tx_id ` set B"
proof -
  have "tx_id ` set (mergeTransactions A B) = set (map (tx_id \<circ> snd) (mergeMap A B))"
    by (simp add: mergeTransactions_def image_image)
  also have "\<dots> = fst ` set (mergeMap A B)"
    by (simp only: keyed_ids[OF keyed_mergeMap] set_map)
  also have "\<dots> = tx_id ` set A \<union> tx_id ` set B"
    by (auto simp: mergeMap_def seedLocal_def keys_mergeFold keys_seedFold)
  finally show ?thesis .
qed

lemma merge_subset: "set (mergeTransactions A B) \<subseteq> set A \<union> set B"
proof -
  have "snd ` set (seedLocal A) \<subseteq> set A"
    using values_seedFold[of A "[]"] by (simp add: seedLocal_def)
  with values_mergeFold[of B "seedLocal A"] show ?thesis
    by (auto simp: mergeTransactions_def mergeMap_def)
qed

subsection \<open>Lists with pairwise distinct ids\<close>

lemma recordsOf_distinct:
  "distinct (map tx_id txs) \<Longrightarrow> t \<in> set txs \<Longrightarrow> recordsOf (tx_id t) txs = [t]"
  by (induction txs) (auto simp: recordsOf_def rev_image_eqI filter_empty_conv)

lemma recordsOf_absent: "k \<notin> tx_id ` set txs \<Longrightarrow> recordsOf k txs = []"
  by (auto simp: recordsOf_def filter_empty_conv)

lemma recordsOf_cases:
  assumes "distinct (map tx_id txs)"
  obtains "recordsOf k txs = []"
        | t where "recordsOf k txs = [t]" "t \<in> set txs" "tx_id t = k"
proof (cases "k \<in> tx_id ` set txs")
  case True
  then obtain t where "t \<in> set txs" "tx_id t = k" by auto
  with recordsOf_distinct[OF assms, of t] that(2) show ?thesis by auto
next
  case False
  with recordsOf_absent that(1) show ?thesis by auto
qed

lemma set_by_recordsOf:
  assumes h: "\<And>k. recordsOf k xs = recordsOf k ys"
  shows "set xs = set ys"
proof -
  have "x \<in> set xs \<longleftrightarrow> x \<in> set ys" for x
  proof -
    have "x \<in> set xs \<longleftrightarrow> x \<in> set (recordsOf (tx_id x) xs)" by (simp add: recordsOf_def)
    also have "\<dots> \<longleftrightarrow> x \<in> set (recordsOf (tx_id x) ys)" by (simp add: h)
    also have "\<dots> \<longleftrightarrow> x \<in> set ys" by (simp add: recordsOf_def)
    finally show ?thesis .
  qed
  then show ?thesis by blast
qed

lemma seed_distinct:
  "distinct (map tx_id txs) \<Longrightarrow> tx_id ` set txs \<inter> fst ` set m = {} \<Longrightarrow>
   fold (\<lambda>tx m. AList.update (tx_id tx) tx m) txs m = m @ map (\<lambda>t. (tx_id t, t)) txs"
proof (induction txs arbitrary: m)
  case Nil
  show ?case by simp
next
  case (Cons t ts)
  have fresh: "tx_id t \<notin> fst ` set m" using Cons.prems(2) by auto
  have upd: "AList.update (tx_id t) t m = m @ [(tx_id t, t)]"
    using fresh by (induction m) auto
  have "tx_id ` set ts \<inter> fst ` set (m @ [(tx_id t, t)]) = {}"
    using Cons.prems by auto
  with Cons.IH[of "m @ [(tx_id t, t)]"] Cons.prems(1) upd show ?case by simp
qed

lemma mergeStep_same: "map_of m (tx_id t) = Some t \<Longrightarrow> mergeStep t m = m"
  by (simp add: mergeStep_def update_triv)

lemma mergeFold_same: "\<forall>t \<in> set txs. map_of m (tx_id t) = Some t \<Longrightarrow> fold mergeStep txs m = m"
  by (induction txs) (simp_all add: mergeStep_same)

lemma merge_self:
  assumes "distinct (map tx_id L)"
  shows "mergeTransactions L L = L"
proof -
  let ?m = "map (\<lambda>t. (tx_id t, t)) L"
  have seed: "seedLocal L = ?m"
    using seed_distinct[OF assms, of "[]"] by (simp add: seedLocal_def)
  have dm: "distinct (map fst ?m)" using assms by (simp add: comp_def)
  have "\<forall>t \<in> set L. map_of ?m (tx_id t) = Some t"
    using dm by (auto intro!: map_of_is_SomeI)
  then have "fold mergeStep L ?m = ?m" by (rule mergeFold_same)
  then show ?thesis by (simp add: mergeTransactions_def mergeMap_def seed comp_def)
qed

lemma pick_sym:
  "tx_updatedAt a = Some Ta \<Longrightarrow> tx_updatedAt b = Some Tb \<Longrightarrow> Ta \<noteq> Tb \<Longrightarrow> pick a b = pick b a"
  by (auto simp: pick_def)

lemma entry_comm:
  assumes dA: "distinct (map tx_id A)" and dB: "distinct (map tx_id B)"
    and sd: "stampsDiffer A B"
  shows "resolve (lastOf (recordsOf k A)) (recordsOf k B)
       = resolve (lastOf (recordsOf k B)) (recordsOf k A)"
proof -
  consider (nn) "recordsOf k A = []" "recordsOf k B = []"
    | (ns) b where "recordsOf k A = []" "recordsOf k B = [b]"
    | (sn) a where "recordsOf k A = [a]" "recordsOf k B = []"
    | (ss) a b where "recordsOf k A = [a]" "a \<in> set A" "tx_id a = k"
                     "recordsOf k B = [b]" "b \<in> set B" "tx_id b = k"
    using recordsOf_cases[OF dA, of k] recordsOf_cases[OF dB, of k] by metis
  then show ?thesis
  proof cases
    case nn
    then show ?thesis by (simp add: lastOf_def resolve_def)
  next
    case ns
    then show ?thesis by (simp add: lastOf_def resolve_def resolveStep_def)
  next
    case sn
    then show ?thesis by (simp add: lastOf_def resolve_def resolveStep_def)
  next
    case ss
    from sd ss(2,5) ss(3,6) have
      "tx_updatedAt a \<noteq> None \<and> tx_updatedAt b \<noteq> None \<and> tx_updatedAt a \<noteq> tx_updatedAt b"
      unfolding stampsDiffer_def by fastforce
    then obtain Ta Tb where
      "tx_updatedAt a = Some Ta" "tx_updatedAt b = Some Tb" "Ta \<noteq> Tb"
      by auto
    then have "pick a b = pick b a" by (rule pick_sym)
    with ss(1,4) show ?thesis by (simp add: lastOf_def resolve_def resolveStep_def)
  qed
qed

lemma merge_comm_id:
  assumes "distinct (map tx_id A)" and "distinct (map tx_id B)" and "stampsDiffer A B"
  shows "recordsOf k (mergeTransactions A B) = recordsOf k (mergeTransactions B A)"
  by (simp only: recordsOf_merge entry_comm[OF assms])

section \<open>Properties of the merge engine\<close>

text \<open>
  Claim C3 (last writer wins). For two records \<open>r\<close> and \<open>r'\<close> with the same id whose
  \<open>updatedAt\<close> timestamps are \<open>T1 < T2\<close>, merging the one-element lists \<open>[r]\<close> and \<open>[r']\<close>
  gives exactly \<open>[r']\<close>, the record that carries \<open>T2\<close>, whichever of the two lists is the
  local argument and whichever the remote one.
\<close>

theorem mergeTransactions_last_writer_wins:
  assumes "tx_id r = tx_id r'"
    and "tx_updatedAt r = Some T1" and "tx_updatedAt r' = Some T2" and "T1 < T2"
  shows "mergeTransactions [r] [r'] = [r'] \<and> mergeTransactions [r'] [r] = [r']"
  using assms by (simp add: merge_singletons)

text \<open>
  The second scenario of the specification: the remote row of \<open>t1\<close> has amount 50 at \<open>T1\<close>,
  the local edit has amount 75 at \<open>T2\<close>.
\<close>

theorem mergeTransactions_last_writer_wins_witness:
  "mergeTransactions [sampleTx ''t1'' 50 (Some ''T1'')] [sampleTx ''t1'' 75 (Some ''T2'')]
     = [sampleTx ''t1'' 75 (Some ''T2'')]
   \<and> mergeTransactions [sampleTx ''t1'' 75 (Some ''T2'')] [sampleTx ''t1'' 50 (Some ''T1'')]
     = [sampleTx ''t1'' 75 (Some ''T2'')]"
  using mergeTransactions_last_writer_wins
    [of "sampleTx ''t1'' 50 (Some ''T1'')" "sampleTx ''t1'' 75 (Some ''T2'')" "''T1''" "''T2''"]
  by (simp add: sampleTx_def)

text \<open>
  Claim C4 (remote wins on a tie), as the claim states it: whenever the two inputs contain
  records with the same id and equal timestamps, the output contains the remote one. This
  fails when the id occurs twice in the local list: the local list below holds \<open>t1\<close> at
  \<open>T1\<close> and again at \<open>T2\<close>, the remote list holds \<open>t1\<close> at \<open>T1\<close>. The map is seeded with the
  last local record, the one at \<open>T2\<close>, and the remote record at \<open>T1\<close> does not replace it.
\<close>

theorem mergeTransactions_tie_counterexample:
  "sampleTx ''t1'' 10 (Some ''T1'')
     \<in> set [sampleTx ''t1'' 10 (Some ''T1''), sampleTx ''t1'' 20 (Some ''T2'')]
   \<and> sampleTx ''t1'' 30 (Some ''T1'') \<in> set [sampleTx ''t1'' 30 (Some ''T1'')]
   \<and> tx_id (sampleTx ''t1'' 10 (Some ''T1'')) = tx_id (sampleTx ''t1'' 30 (Some ''T1''))
   \<and> tx_updatedAt (sampleTx ''t1'' 10 (Some ''T1'')) = tx_updatedAt (sampleTx ''t1'' 30 (Some ''T1''))
   \<and> mergeTransactions [sampleTx ''t1'' 10 (Some ''T1''), sampleTx ''t1'' 20 (Some ''T2'')]
        [sampleTx ''t1'' 30 (Some ''T1'')] = [sampleTx ''t1'' 20 (Some ''T2'')]
   \<and> sampleTx ''t1'' 30 (Some ''T1'') \<notin>
       set (mergeTransactions [sampleTx ''t1'' 10 (Some ''T1''), sampleTx ''t1'' 20 (Some ''T2'')]
              [sampleTx ''t1'' 30 (Some ''T1'')])"
  by (simp add: mergeTransactions_def mergeMap_def seedLocal_def mergeStep_def sampleTx_def)

text \<open>
  Claim C4, amended. When an id occurs once in the local list (record \<open>l\<close>) and once in the
  remote list (record \<open>r\<close>), and the two records carry exactly the same \<open>updatedAt\<close>
  timestamp, the records of the output with that id are exactly \<open>[r]\<close>: the output holds
  the remote record, and that id appears once.
\<close>

theorem mergeTransactions_tie_remote_wins:
  assumes "recordsOf k A = [l]" and "recordsOf k B = [r]"
    and "tx_updatedAt l = Some T" and "tx_updatedAt r = Some T"
  shows "recordsOf k (mergeTransactions A B) = [r]"
  using assms by (simp add: recordsOf_merge lastOf_def resolve_def resolveStep_def pick_def)

theorem mergeTransactions_tie_remote_wins_witness:
  "recordsOf ''t1''
     (mergeTransactions [sampleTx ''t0'' 5 (Some ''T0''), sampleTx ''t1'' 10 (Some ''T1'')]
        [sampleTx ''t1'' 30 (Some ''T1'')])
   = [sampleTx ''t1'' 30 (Some ''T1'')]"
  using mergeTransactions_tie_remote_wins
    [of "''t1''" "[sampleTx ''t0'' 5 (Some ''T0''), sampleTx ''t1'' 10 (Some ''T1'')]"
        "sampleTx ''t1'' 10 (Some ''T1'')" "[sampleTx ''t1'' 30 (Some ''T1'')]"
        "sampleTx ''t1'' 30 (Some ''T1'')" "''T1''"]
  by (simp add: recordsOf_def sampleTx_def)

text \<open>
  Claim C5 (idempotence), as the claim states it: for every list \<open>L\<close> the records of
  \<open>mergeTransactions L L\<close> are the records of \<open>L\<close>. This fails for a list that holds one id
  twice with different field values: the output keeps one record per id.
\<close>

theorem mergeTransactions_idempotent_counterexample:
  "mergeTransactions [sampleTx ''t1'' 10 (Some ''T1''), sampleTx ''t1'' 20 (Some ''T2'')]
     [sampleTx ''t1'' 10 (Some ''T1''), sampleTx ''t1'' 20 (Some ''T2'')]
     = [sampleTx ''t1'' 20 (Some ''T2'')]
   \<and> set (mergeTransactions [sampleTx ''t1'' 10 (Some ''T1''), sampleTx ''t1'' 20 (Some ''T2'')]
           [sampleTx ''t1'' 10 (Some ''T1''), sampleTx ''t1'' 20 (Some ''T2'')])
     \<noteq> set [sampleTx ''t1'' 10 (Some ''T1''), sampleTx ''t1'' 20 (Some ''T2'')]"
  by (simp add: mergeTransactions_def mergeMap_def seedLocal_def mergeStep_def sampleTx_def)

text \<open>
  Claim C5, amended. For every list \<open>L\<close> whose ids are pairwise distinct,
  \<open>mergeTransactions L L\<close> is \<open>L\<close> itself: the same records, in the same order. For any list
  \<open>L\<close>, the output has the ids of \<open>L\<close>, one record per id, and each of its records is a
  record of \<open>L\<close>.
\<close>

theorem mergeTransactions_idempotent:
  "(distinct (map tx_id L) \<longrightarrow> mergeTransactions L L = L)
   \<and> tx_id ` set (mergeTransactions L L) = tx_id ` set L
   \<and> distinct (map tx_id (mergeTransactions L L))
   \<and> set (mergeTransactions L L) \<subseteq> set L"
  using merge_self[of L] merge_ids[of L L] merge_distinct_ids[of L L] merge_subset[of L L]
  by simp

theorem mergeTransactions_idempotent_witness:
  "distinct (map tx_id [sampleTx ''t1'' 10 (Some ''T1''), sampleTx ''t2'' 20 None])
   \<and> mergeTransactions [sampleTx ''t1'' 10 (Some ''T1''), sampleTx ''t2'' 20 None]
        [sampleTx ''t1'' 10 (Some ''T1''), sampleTx ''t2'' 20 None]
      = [sampleTx ''t1'' 10 (Some ''T1''), sampleTx ''t2'' 20 None]"
  using mergeTransactions_idempotent [of "[sampleTx ''t1'' 10 (Some ''T1''), sampleTx ''t2'' 20 None]"]
  by (simp add: sampleTx_def)

text \<open>
  Claim C6 (commutativity of content), as the claim states it: for every pair of lists with
  no same-id pair of equal timestamps across them, the two call orders give the same record
  for every id. This fails when one list holds an id twice: below, \<open>A\<close> holds \<open>t1\<close> at \<open>T5\<close>
  and then at \<open>T1\<close>, \<open>B\<close> holds \<open>t1\<close> at \<open>T3\<close>. With \<open>A\<close> local the map is seeded with the
  record at \<open>T1\<close> and the remote \<open>T3\<close> replaces it; with \<open>B\<close> local the record at \<open>T5\<close>
  replaces \<open>T3\<close>.
\<close>

theorem mergeTransactions_commutative_counterexample:
  "tx_updatedAt (sampleTx ''t1'' 1 (Some ''T5'')) \<noteq> tx_updatedAt (sampleTx ''t1'' 3 (Some ''T3''))
   \<and> tx_updatedAt (sampleTx ''t1'' 2 (Some ''T1'')) \<noteq> tx_updatedAt (sampleTx ''t1'' 3 (Some ''T3''))
   \<and> mergeTransactions [sampleTx ''t1'' 1 (Some ''T5''), sampleTx ''t1'' 2 (Some ''T1'')]
        [sampleTx ''t1'' 3 (Some ''T3'')] = [sampleTx ''t1'' 3 (Some ''T3'')]
   \<and> mergeTransactions [sampleTx ''t1'' 3 (Some ''T3'')]
        [sampleTx ''t1'' 1 (Some ''T5''), sampleTx ''t1'' 2 (Some ''T1'')]
        = [sampleTx ''t1'' 1 (Some ''T5'')]
   \<and> sampleTx ''t1'' 3 (Some ''T3'') \<noteq> sampleTx ''t1'' 1 (Some ''T5'')"
  by (simp add: mergeTransactions_def mergeMap_def seedLocal_def mergeStep_def sampleTx_def)

text \<open>
  Claim C6, amended. For lists \<open>A\<close> and \<open>B\<close> that each have pairwise distinct ids, and where
  every same-id pair across the two lists carries two timestamps that differ,
  \<open>mergeTransactions A B\<close> and \<open>mergeTransactions B A\<close> hold the same record for every id,
  and so the same set of records.
\<close>

theorem mergeTransactions_commutative:
  assumes "distinct (map tx_id A)" and "distinct (map tx_id B)" and "stampsDiffer A B"
  shows "(\<forall>k. recordsOf k (mergeTransactions A B) = recordsOf k (mergeTransactions B A))
       \<and> set (mergeTransactions A B) = set (mergeTransactions B A)"
proof
  show "\<forall>k. recordsOf k (mergeTransactions A B) = recordsOf k (mergeTransactions B A)"
    using merge_comm_id[OF assms] by simp
  then show "set (mergeTransactions A B) = set (mergeTransactions B A)"
    by (intro set_by_recordsOf) simp
qed

theorem mergeTransactions_commutative_witness:
  "distinct (map tx_id [sampleTx ''t1'' 50 (Some ''T1''), sampleTx ''t2'' 7 (Some ''T4'')])
   \<and> distinct (map tx_id [sampleTx ''t1'' 75 (Some ''T2''), sampleTx ''t3'' 9 (Some ''T3'')])
   \<and> stampsDiffer [sampleTx ''t1'' 50 (Some ''T1''), sampleTx ''t2'' 7 (Some ''T4'')]
        [sampleTx ''t1'' 75 (Some ''T2''), sampleTx ''t3'' 9 (Some ''T3'')]
   \<and> set (mergeTransactions [sampleTx ''t1'' 50 (Some ''T1''), sampleTx ''t2'' 7 (Some ''T4'')]
           [sampleTx ''t1'' 75 (Some ''T2''), sampleTx ''t3'' 9 (Some ''T3'')])
     = set (mergeTransactions [sampleTx ''t1'' 75 (Some ''T2''), sampleTx ''t3'' 9 (Some ''T3'')]
             [sampleTx ''t1'' 50 (Some ''T1''), sampleTx ''t2'' 7 (Some ''T4'')])"
proof -
  have d1: "distinct (map tx_id [sampleTx ''t1'' 50 (Some ''T1''), sampleTx ''t2'' 7 (Some ''T4'')])"
    by (simp add: sampleTx_def)
  have d2: "distinct (map tx_id [sampleTx ''t1'' 75 (Some ''T2''), sampleTx ''t3'' 9 (Some ''T3'')])"
    by (simp add: sampleTx_def)
  have sd: "stampsDiffer [sampleTx ''t1'' 50 (Some ''T1''), sampleTx ''t2'' 7 (Some ''T4'')]
        [sampleTx ''t1'' 75 (Some ''T2''), sampleTx ''t3'' 9 (Some ''T3'')]"
    by (simp add: stampsDiffer_def sampleTx_def)
  from mergeTransactions_commutative[OF d1 d2 sd] d1 d2 sd show ?thesis by blast
qed

text \<open>
  Claim C7 (input anomalies), as the claim states it: of two same-id records of which
  exactly one carries a timestamp, the output holds the one with the timestamp. This fails
  when the record without a timestamp is the local one: the test
  \<open>tx.updatedAt >= existing.updatedAt\<close> is false against \<open>undefined\<close>, and the local record
  stays.
\<close>

theorem mergeTransactions_missing_timestamp_counterexample:
  "tx_id (sampleTx ''t1'' 10 None) = tx_id (sampleTx ''t1'' 20 (Some ''T1''))
   \<and> tx_updatedAt (sampleTx ''t1'' 10 None) = None
   \<and> tx_updatedAt (sampleTx ''t1'' 20 (Some ''T1'')) = Some ''T1''
   \<and> mergeTransactions [sampleTx ''t1'' 10 None] [sampleTx ''t1'' 20 (Some ''T1'')]
       = [sampleTx ''t1'' 10 None]
   \<and> sampleTx ''t1'' 20 (Some ''T1'')
       \<notin> set (mergeTransactions [sampleTx ''t1'' 10 None] [sampleTx ''t1'' 20 (Some ''T1'')])"
  by (simp add: mergeTransactions_def mergeMap_def seedLocal_def mergeStep_def sampleTx_def)

text \<open>
  Claim C7, amended. \<open>mergeTransactions\<close> has a result on every pair of lists, with
  duplicate ids and with missing timestamps: a list with one record per id, whose ids are
  those of the two inputs. A comparison with a missing timestamp is false, so the local
  record is kept: when an id occurs once in each list and exactly one of the two records
  carries a timestamp, the output holds the local record for that id, the one with the
  timestamp only if it is the local one.
\<close>

theorem mergeTransactions_missing_timestamp_keeps_local:
  "distinct (map tx_id (mergeTransactions A B))
   \<and> tx_id ` set (mergeTransactions A B) = tx_id ` set A \<union> tx_id ` set B
   \<and> (recordsOf k A = [l] \<and> recordsOf k B = [r]
        \<and> (tx_updatedAt l = None) \<noteq> (tx_updatedAt r = None)
      \<longrightarrow> recordsOf k (mergeTransactions A B) = [l])"
proof -
  have "recordsOf k (mergeTransactions A B) = [l]"
    if "recordsOf k A = [l]" "recordsOf k B = [r]"
       "(tx_updatedAt l = None) \<noteq> (tx_updatedAt r = None)"
    using that by (cases "tx_updatedAt l"; cases "tx_updatedAt r")
      (simp_all add: recordsOf_merge lastOf_def resolve_def resolveStep_def pick_def)
  then show ?thesis
    using merge_distinct_ids[of A B] merge_ids[of A B] by blast
qed

theorem mergeTransactions_missing_timestamp_keeps_local_witness:
  "recordsOf ''t1'' (mergeTransactions [sampleTx ''t1'' 10 (Some ''T1'')] [sampleTx ''t1'' 20 None])
     = [sampleTx ''t1'' 10 (Some ''T1'')]
   \<and> recordsOf ''t1'' (mergeTransactions [sampleTx ''t1'' 20 None] [sampleTx ''t1'' 10 (Some ''T1'')])
     = [sampleTx ''t1'' 20 None]"
  using mergeTransactions_missing_timestamp_keeps_local
      [of "[sampleTx ''t1'' 10 (Some ''T1'')]" "[sampleTx ''t1'' 20 None]" "''t1''"
          "sampleTx ''t1'' 10 (Some ''T1'')" "sampleTx ''t1'' 20 None"]
    mergeTransactions_missing_timestamp_keeps_local
      [of "[sampleTx ''t1'' 20 None]" "[sampleTx ''t1'' 10 (Some ''T1'')]" "''t1''"
          "sampleTx ''t1'' 20 None" "sampleTx ''t1'' 10 (Some ''T1'')"]
  by (simp add: recordsOf_def sampleTx_def)

section \<open>Pending-delete queue\<close>

lemma addPendingDelete_idem: "i \<in> set (getPendingDeletes st) \<Longrightarrow> addPendingDelete i st = st"
  by (simp add: addPendingDelete_def)

lemma pending_add:
  "getPendingDeletes (addPendingDelete i st) =
     (if i \<in> set (getPendingDeletes st) then getPendingDeletes st
      else getPendingDeletes st @ [i])"
  by (simp add: addPendingDelete_def getPendingDeletes_def)

lemma pending_clear: "getPendingDeletes (clearPendingDeletes st) = []"
  by (simp add: clearPendingDeletes_def getPendingDeletes_def)

lemma distinct_add:
  "distinct (getPendingDeletes st) \<Longrightarrow> distinct (getPendingDeletes (addPendingDelete i st))"
  by (simp add: pending_add)

lemma distinct_queueOp:
  "distinct (getPendingDeletes st) \<Longrightarrow> distinct (getPendingDeletes (applyQueueOp op st))"
  by (cases op) (simp_all add: distinct_add pending_clear)

lemma distinct_queueOps:
  "distinct (getPendingDeletes st) \<Longrightarrow> distinct (getPendingDeletes (fold applyQueueOp ops st))"
  by (induction ops arbitrary: st) (simp_all add: distinct_queueOp)

lemma distinct_addFold:
  "distinct (getPendingDeletes st) \<Longrightarrow>
   distinct (getPendingDeletes (fold addPendingDelete xs st))"
  by (induction xs arbitrary: st) (simp_all add: distinct_add)

lemma set_addFold:
  "set (getPendingDeletes (fold addPendingDelete xs st)) = set (getPendingDeletes st) \<union> set xs"
  by (induction xs arbitrary: st) (auto simp: pending_add)

lemma set_requeueOthers:
  "set (getPendingDeletes (requeueOthers i st)) = set (getPendingDeletes st) - {i}"
  by (auto simp: requeueOthers_def set_addFold pending_clear)

lemma distinct_requeueOthers: "distinct (getPendingDeletes (requeueOthers i st))"
  by (simp add: requeueOthers_def distinct_addFold pending_clear)

text \<open>
  Claim C10 (no duplicate in the queue). Adding an id that the stored queue already holds
  leaves the store as it is; each of \<open>getPendingDeletes\<close>, \<open>addPendingDelete\<close> and
  \<open>clearPendingDeletes\<close> takes a queue of distinct ids to a queue of distinct ids, and so
  does any sequence of them; started from an absent key, any sequence of them gives a queue
  of distinct ids.
\<close>

theorem pendingDeletes_distinct:
  "(i \<in> set (getPendingDeletes st) \<longrightarrow> addPendingDelete i st = st)
   \<and> (distinct (getPendingDeletes st) \<longrightarrow> distinct (getPendingDeletes (applyQueueOp op st)))
   \<and> (distinct (getPendingDeletes st)
        \<longrightarrow> distinct (getPendingDeletes (fold applyQueueOp ops st)))
   \<and> distinct (getPendingDeletes (fold applyQueueOp ops (st\<lparr>st_pending_deletes := None\<rparr>)))"
proof -
  have "distinct (getPendingDeletes (st\<lparr>st_pending_deletes := None\<rparr>))"
    by (simp add: getPendingDeletes_def)
  then have "distinct (getPendingDeletes (fold applyQueueOp ops (st\<lparr>st_pending_deletes := None\<rparr>)))"
    by (rule distinct_queueOps)
  then show ?thesis
    using addPendingDelete_idem[of i st] distinct_queueOp[of st op] distinct_queueOps[of st ops]
    by blast
qed

theorem pendingDeletes_distinct_witness:
  "addPendingDelete ''t2'' \<lparr>st_transactions = None, st_pending_deletes = Some [''t1'', ''t2'']\<rparr>
     = \<lparr>st_transactions = None, st_pending_deletes = Some [''t1'', ''t2'']\<rparr>
   \<and> distinct (getPendingDeletes (applyQueueOp (AddPendingDelete ''t2'')
        \<lparr>st_transactions = None, st_pending_deletes = Some [''t1'', ''t2'']\<rparr>))
   \<and> distinct (getPendingDeletes (fold applyQueueOp
        [AddPendingDelete ''t2'', GetPendingDeletes, AddPendingDelete ''t3'', AddPendingDelete ''t1'']
        \<lparr>st_transactions = None, st_pending_deletes = Some [''t1'', ''t2'']\<rparr>))
   \<and> getPendingDeletes (fold applyQueueOp
        [AddPendingDelete ''t2'', GetPendingDeletes, AddPendingDelete ''t3'', AddPendingDelete ''t1'']
        \<lparr>st_transactions = None, st_pending_deletes = Some [''t1'', ''t2'']\<rparr>)
      = [''t1'', ''t2'', ''t3'']"
  using pendingDeletes_distinct
    [of "''t2''" "\<lparr>st_transactions = None, st_pending_deletes = Some [''t1'', ''t2'']\<rparr>"
        "AddPendingDelete ''t2''"
        "[AddPendingDelete ''t2'', GetPendingDeletes, AddPendingDelete ''t3'', AddPendingDelete ''t1'']"]
  by (simp add: getPendingDeletes_def addPendingDelete_def)

section \<open>The sync pass\<close>

lemma pushTransactionsBatch_effect:
  "\<exists>w. pushTransactionsBatch sb txs u s =
     (s\<lparr>transport_calls := transport_calls s @ [Call_pushTransactionsBatch txs u],
        console_warn := console_warn s @ w\<rparr>, Fulfilled ())"
  by (cases sb; simp add: pushTransactionsBatch_def invoke_def warn_def Let_def split: reply.splits)
     (auto split: reply.splits intro: exI[of _ "[]"])

text \<open>
  Claim C1 (flush of the pending deletes). In a pass that runs (no other pass in flight)
  with a queue that is not empty, \<open>deleteRemoteTransactionsBatch\<close> is invoked with all the
  queued ids, and the queue is empty afterwards if and only if that call is fulfilled. If
  the call is rejected (it throws), the pass is rejected, the store (the queue and the
  transactions) and the in-memory state are as before, the time of the last sync is
  unchanged, and the transport calls of the pass are the push and the batch delete: no
  fetch. If it is fulfilled, the fetch follows.
\<close>

theorem performSync_flushes_pending_deletes:
  assumes idle: "\<not> isSyncingRef s" and q: "getPendingDeletes (app_store s) \<noteq> []"
  shows "Call_deleteRemoteTransactionsBatch (getPendingDeletes (app_store s))
           \<in> set (transport_calls (fst (performSync env u s)))
       \<and> (getPendingDeletes (app_store (fst (performSync env u s))) = []
            \<longleftrightarrow> env_deleteBatch env = Fulfilled ())
       \<and> (env_deleteBatch env = Rejected \<longrightarrow>
            snd (performSync env u s) = Rejected
          \<and> app_store (fst (performSync env u s)) = app_store s
          \<and> app_state (fst (performSync env u s)) = app_state s
          \<and> lastSyncAtRef (fst (performSync env u s)) = lastSyncAtRef s
          \<and> transport_calls (fst (performSync env u s))
              = transport_calls s
                @ [Call_pushTransactionsBatch (getTransactions (app_store s)) u,
                   Call_deleteRemoteTransactionsBatch (getPendingDeletes (app_store s))])
       \<and> (env_deleteBatch env = Fulfilled () \<longrightarrow>
            snd (performSync env u s) = Fulfilled ()
          \<and> transport_calls (fst (performSync env u s))
              = transport_calls s
                @ [Call_pushTransactionsBatch (getTransactions (app_store s)) u,
                   Call_deleteRemoteTransactionsBatch (getPendingDeletes (app_store s)),
                   Call_fetchRemoteTransactions u])"
proof -
  obtain w where push:
    "pushTransactionsBatch (env_push env) (getTransactions (app_store s)) u
        (s\<lparr>isSyncingRef := True\<rparr>) =
       (s\<lparr>isSyncingRef := True,
          transport_calls := transport_calls s
             @ [Call_pushTransactionsBatch (getTransactions (app_store s)) u],
          console_warn := console_warn s @ w\<rparr>, Fulfilled ())"
    using pushTransactionsBatch_effect
      [of "env_push env" "getTransactions (app_store s)" u "s\<lparr>isSyncingRef := True\<rparr>"]
    by auto
  show ?thesis
  proof (cases "env_deleteBatch env")
    case Rejected
    with idle q push show ?thesis
      by (simp add: performSync_def syncBody_def flushDeletes_def
          deleteRemoteTransactionsBatch_def invoke_def Let_def)
  next
    case (Fulfilled x)
    with idle q push show ?thesis
      by (simp add: performSync_def syncBody_def flushDeletes_def
          deleteRemoteTransactionsBatch_def pullMergePersist_def fetchRemoteTransactions_def
          dispatch_def setTransactions_def clearPendingDeletes_def getPendingDeletes_def
          warn_def invoke_def Let_def split: option.splits reply.splits)
  qed
qed

text \<open>
  A pass over the queue \<open>[t2, t9]\<close>: rejected, the queue is intact and the local
  transactions are those of before; fulfilled, the queue is empty.
\<close>

theorem performSync_flushes_pending_deletes_witness:
  "getPendingDeletes (app_store (fst (performSync (sampleEnv Rejected) ''user-1''
      (sampleApp (Some ''user-1'') [sampleTx ''t1'' 75 (Some ''T2'')] (Some [''t2'', ''t9''])))))
     = [''t2'', ''t9'']
   \<and> getTransactions (app_store (fst (performSync (sampleEnv Rejected) ''user-1''
      (sampleApp (Some ''user-1'') [sampleTx ''t1'' 75 (Some ''T2'')] (Some [''t2'', ''t9''])))))
     = [sampleTx ''t1'' 75 (Some ''T2'')]
   \<and> snd (performSync (sampleEnv Rejected) ''user-1''
      (sampleApp (Some ''user-1'') [sampleTx ''t1'' 75 (Some ''T2'')] (Some [''t2'', ''t9''])))
     = Rejected
   \<and> getPendingDeletes (app_store (fst (performSync (sampleEnv (Fulfilled ())) ''user-1''
      (sampleApp (Some ''user-1'') [sampleTx ''t1'' 75 (Some ''T2'')] (Some [''t2'', ''t9''])))))
     = []"
  using performSync_flushes_pending_deletes
      [of "sampleApp (Some ''user-1'') [sampleTx ''t1'' 75 (Some ''T2'')] (Some [''t2'', ''t9''])"
          "sampleEnv Rejected" "''user-1''"]
    performSync_flushes_pending_deletes
      [of "sampleApp (Some ''user-1'') [sampleTx ''t1'' 75 (Some ''T2'')] (Some [''t2'', ''t9''])"
          "sampleEnv (Fulfilled ())" "''user-1''"]
  by (simp add: sampleApp_def sampleEnv_def getPendingDeletes_def getTransactions_def)

section \<open>The mutation entry points\<close>

lemma deleteRemoteTransaction_fulfils: "snd (deleteRemoteTransaction sb i s) = Fulfilled ()"
  by (simp add: deleteRemoteTransaction_def Let_def split: option.splits reply.splits)

lemma deleteRemoteTransaction_store: "app_store (fst (deleteRemoteTransaction sb i s)) = app_store s"
  by (simp add: deleteRemoteTransaction_def invoke_def warn_def Let_def
      split: option.splits reply.splits)

lemma liveDelete_store: "app_store (liveDelete sb i s) = requeueOthers i (app_store s)"
  using deleteRemoteTransaction_fulfils[of sb i s] deleteRemoteTransaction_store[of sb i s]
  by (cases "deleteRemoteTransaction sb i s") (simp add: liveDelete_def)

lemma removeLocal_pending:
  "getPendingDeletes (app_store (removeLocal i s)) = getPendingDeletes (app_store s)"
  by (simp add: removeLocal_def dispatch_def deleteTransaction_def getPendingDeletes_def)

lemma removeLocal_owner: "sbUserIdRef (removeLocal i s) = sbUserIdRef s"
  by (simp add: removeLocal_def dispatch_def)

lemma removeLocal_calls: "transport_calls (removeLocal i s) = transport_calls s"
  by (simp add: removeLocal_def dispatch_def)

lemma removeTransaction_owner_store:
  assumes "ownerOf (sbUserIdRef s) = Some u"
  shows "app_store (removeTransaction sb i s)
       = requeueOthers i (addPendingDelete i (app_store (removeLocal i s)))"
  using assms
  by (simp add: removeTransaction_def removeLocal_owner liveDelete_store enqueueDelete_def Let_def)

text \<open>
  With an owner id, the id is queued before the live delete is invoked, and whatever the
  remote service replies to the live delete, the queue afterwards holds the ids it held
  before without the deleted one: the promise of \<open>deleteRemoteTransaction\<close> is fulfilled on
  an error reply too, so the handler of \<open>then\<close> always runs.
\<close>

lemma removeTransaction_queue:
  assumes "ownerOf (sbUserIdRef s) = Some u"
  shows "i \<in> set (getPendingDeletes (app_store (enqueueDelete i (removeLocal i s))))
       \<and> transport_calls (enqueueDelete i (removeLocal i s)) = transport_calls s
       \<and> set (getPendingDeletes (app_store (removeTransaction sb i s)))
           = set (getPendingDeletes (app_store s)) - {i}"
  by (auto simp: removeTransaction_owner_store[OF assms] set_requeueOthers pending_add
      removeLocal_pending enqueueDelete_def removeLocal_calls)

text \<open>
  Claim C2 (a failed live delete stays queued), at a failing input. The owner is known, the
  queue holds \<open>t9\<close>, and \<open>t2\<close> is removed while the remote service answers the delete with
  an error. Before the live attempt the queue is \<open>[t9, t2]\<close>. After it the queue is
  \<open>[t9]\<close>: the failure is only written to the console by \<open>deleteRemoteTransaction\<close>, and
  \<open>t2\<close> has left the queue although it was not deleted remotely.
\<close>

theorem removeTransaction_failed_live_delete_unqueues:
  "getPendingDeletes (app_store (enqueueDelete ''t2'' (removeLocal ''t2''
      (sampleApp (Some ''user-1'') [sampleTx ''t2'' 50 (Some ''T1'')] (Some [''t9''])))))
     = [''t9'', ''t2'']
   \<and> getPendingDeletes (app_store (removeTransaction (Some (Sb_error ''network'')) ''t2''
      (sampleApp (Some ''user-1'') [sampleTx ''t2'' 50 (Some ''T1'')] (Some [''t9'']))))
     = [''t9'']
   \<and> console_warn (removeTransaction (Some (Sb_error ''network'')) ''t2''
      (sampleApp (Some ''user-1'') [sampleTx ''t2'' 50 (Some ''T1'')] (Some [''t9''])))
     = [''[supabase] deleteTransaction: network'']
   \<and> transport_calls (removeTransaction (Some (Sb_error ''network'')) ''t2''
      (sampleApp (Some ''user-1'') [sampleTx ''t2'' 50 (Some ''T1'')] (Some [''t9''])))
     = [Call_deleteRemoteTransaction ''t2'']"
  by (simp add: removeTransaction_def removeLocal_def enqueueDelete_def liveDelete_def
      deleteRemoteTransaction_def requeueOthers_def addPendingDelete_def clearPendingDeletes_def
      getPendingDeletes_def deleteTransaction_def getTransactions_def dispatch_def invoke_def
      warn_def sampleApp_def sampleTx_def Let_def)

subsection \<open>Guest mode\<close>

lemma guest_applyMutation:
  assumes "ownerOf (sbUserIdRef s) = None"
  shows "applyMutation m s = applyLocally m s"
  using assms
  by (cases m)
     (simp_all add: addTransaction_def updateTransaction_def removeTransaction_def Let_def
        saveLocal_def removeLocal_def dispatch_def)

lemma applyLocally_untouched:
  "transport_calls (applyLocally m s) = transport_calls s
   \<and> console_warn (applyLocally m s) = console_warn s
   \<and> st_pending_deletes (app_store (applyLocally m s)) = st_pending_deletes (app_store s)
   \<and> sbUserIdRef (applyLocally m s) = sbUserIdRef s"
  by (cases m)
     (simp_all add: saveLocal_def removeLocal_def dispatch_def saveTransaction_def
        deleteTransaction_def)

lemma guest_run:
  "ownerOf (sbUserIdRef s) = None \<Longrightarrow>
   fold applyMutation ms s = fold applyLocally ms s
   \<and> transport_calls (fold applyLocally ms s) = transport_calls s
   \<and> console_warn (fold applyLocally ms s) = console_warn s
   \<and> st_pending_deletes (app_store (fold applyLocally ms s)) = st_pending_deletes (app_store s)
   \<and> sbUserIdRef (fold applyLocally ms s) = sbUserIdRef s"
proof (induction ms arbitrary: s)
  case Nil
  show ?case by simp
next
  case (Cons m ms)
  have step: "applyMutation m s = applyLocally m s"
    by (rule guest_applyMutation[OF Cons.prems])
  have "ownerOf (sbUserIdRef (applyLocally m s)) = None"
    using Cons.prems applyLocally_untouched[of m s] by simp
  from Cons.IH[OF this] step applyLocally_untouched[of m s] show ?case by simp
qed

text \<open>
  Claim C8 (guest mode). When no owner id has been established, any sequence of calls of
  \<open>addTransaction\<close>, \<open>updateTransaction\<close> and \<open>removeTransaction\<close> does what its local
  parts do (the writes of the transactions to the local store and to the in-memory state):
  no transport function is invoked, nothing is written to the console, the pending-delete
  queue is the stored document of before, and there is still no owner id.
\<close>

theorem guest_mode_is_local_only:
  assumes "ownerOf (sbUserIdRef s) = None"
  shows "fold applyMutation ms s = fold applyLocally ms s
       \<and> transport_calls (fold applyMutation ms s) = transport_calls s
       \<and> st_pending_deletes (app_store (fold applyMutation ms s))
           = st_pending_deletes (app_store s)
       \<and> console_warn (fold applyMutation ms s) = console_warn s
       \<and> sbUserIdRef (fold applyMutation ms s) = sbUserIdRef s"
  using guest_run[OF assms, of ms] by simp

text \<open>
  The first scenario of the specification, continued: \<open>t1\<close> is added, edited, \<open>t2\<close> is
  added and removed, all without an owner id, while the remote service would accept every
  request.
\<close>

theorem guest_mode_is_local_only_witness:
  "transport_calls (fold applyMutation
      [AddTransaction (Some (Sb_data ())) (sampleTx ''t1'' 50 (Some ''T1'')),
       UpdateTransaction (Some (Sb_data ())) (sampleTx ''t1'' 75 (Some ''T2'')),
       AddTransaction (Some (Sb_data ())) (sampleTx ''t2'' 5 (Some ''T3'')),
       RemoveTransaction (Some (Sb_data ())) ''t2'']
      (sampleApp None [] (Some [''t9'']))) = []
   \<and> st_pending_deletes (app_store (fold applyMutation
      [AddTransaction (Some (Sb_data ())) (sampleTx ''t1'' 50 (Some ''T1'')),
       UpdateTransaction (Some (Sb_data ())) (sampleTx ''t1'' 75 (Some ''T2'')),
       AddTransaction (Some (Sb_data ())) (sampleTx ''t2'' 5 (Some ''T3'')),
       RemoveTransaction (Some (Sb_data ())) ''t2'']
      (sampleApp None [] (Some [''t9''])))) = Some [''t9'']
   \<and> getTransactions (app_store (fold applyMutation
      [AddTransaction (Some (Sb_data ())) (sampleTx ''t1'' 50 (Some ''T1'')),
       UpdateTransaction (Some (Sb_data ())) (sampleTx ''t1'' 75 (Some ''T2'')),
       AddTransaction (Some (Sb_data ())) (sampleTx ''t2'' 5 (Some ''T3'')),
       RemoveTransaction (Some (Sb_data ())) ''t2'']
      (sampleApp None [] (Some [''t9''])))) = [sampleTx ''t1'' 75 (Some ''T2'')]"
  using guest_mode_is_local_only
    [of "sampleApp None [] (Some [''t9''])"
        "[AddTransaction (Some (Sb_data ())) (sampleTx ''t1'' 50 (Some ''T1'')),
          UpdateTransaction (Some (Sb_data ())) (sampleTx ''t1'' 75 (Some ''T2'')),
          AddTransaction (Some (Sb_data ())) (sampleTx ''t2'' 5 (Some ''T3'')),
          RemoveTransaction (Some (Sb_data ())) ''t2'']"]
  by (simp add: sampleApp_def saveLocal_def removeLocal_def dispatch_def saveTransaction_def
      deleteTransaction_def getTransactions_def upsertTransaction_def sampleTx_def Let_def)

end
